theory Spec2Isabelle
  imports Main
begin

section \<open>Data model of script.js\<close>

text \<open>
  The script keeps one module-level object \<open>state\<close> with the fields \<open>board\<close>,
  \<open>currentPlayer\<close>, \<open>gameOver\<close>, \<open>winner\<close> and \<open>winningLine\<close>. The only strings it
  ever stores in \<open>currentPlayer\<close>, in a cell or in \<open>winner\<close> are the literals \<open>'X'\<close> and \<open>'O'\<close>
  (both truthy); they are the two constructors of \<open>marker\<close>. A cell is \<open>null\<close> (\<open>None\<close>) or
  a marker.
\<close>

datatype marker = PlayerX | PlayerO

type_synonym cell = "marker option"

record game_state =
  board :: "cell list"
  currentPlayer :: marker
  gameOver :: bool
  winner :: "marker option"
  winningLine :: "nat list option"

text \<open>The object literal of lines 7-13: \<open>Array(9).fill(null)\<close>, \<open>'X'\<close>, \<open>false\<close>, \<open>null\<close>, \<open>null\<close>.\<close>

definition initial_state :: game_state where
  "initial_state =
     \<lparr>board = replicate 9 None, currentPlayer = PlayerX, gameOver = False,
      winner = None, winningLine = None\<rparr>"

definition WIN_LINES :: "(nat \<times> nat \<times> nat) list" where
  "WIN_LINES =
     [(0, 1, 2), (3, 4, 5), (6, 7, 8),
      (0, 3, 6), (1, 4, 7), (2, 5, 8),
      (0, 4, 8), (2, 4, 6)]"

subsection \<open>JavaScript numbers as array indices\<close>

text \<open>
  \<open>parseInt(s, 10)\<close> yields \<open>NaN\<close>, an infinity, or an integer. Reading \<open>arr[n]\<close> converts
  \<open>n\<close> to a property key; the array owns the keys \<open>0 .. length - 1\<close> only, so every other
  number reads \<open>undefined\<close>.
\<close>

datatype js_number = NaN | PosInfinity | NegInfinity | Num int

datatype js_read = Undefined | Value cell

fun board_at :: "cell list \<Rightarrow> js_number \<Rightarrow> js_read" where
  "board_at bd (Num i) =
     (if 0 \<le> i \<and> i < int (length bd) then Value (bd ! nat i) else Undefined)"
| "board_at bd NaN = Undefined"
| "board_at bd PosInfinity = Undefined"
| "board_at bd NegInfinity = Undefined"

text \<open>
  The assignment \<open>state.board[index] = v\<close>. Inside the array it replaces the cell. Outside,
  JavaScript would grow the array or add a named property; \<open>handleCellClick\<close> assigns only
  after it has read \<open>null\<close> at the same index, which happens inside the array only (lemma
  \<open>board_at_Value\<close>), so that branch leaves the list as it is.
\<close>

fun board_set :: "cell list \<Rightarrow> js_number \<Rightarrow> cell \<Rightarrow> cell list" where
  "board_set bd (Num i) v =
     (if 0 \<le> i \<and> i < int (length bd) then bd[nat i := v] else bd)"
| "board_set bd NaN v = bd"
| "board_set bd PosInfinity v = bd"
| "board_set bd NegInfinity v = bd"

section \<open>Game logic\<close>

text \<open>
  \<open>checkWinner\<close> (lines 71-79): the \<open>for ... of\<close> loop over \<open>WIN_LINES\<close> is the recursion
  over the list; \<open>val && ...\<close> is true only for a marker, since \<open>null\<close> and \<open>undefined\<close> are
  falsy; \<open>===\<close> on two reads is equality of the values read. The result is the pair
  \<open>{ winner, line }\<close>, or \<open>None\<close> for \<open>null\<close>.
\<close>

fun checkWinner_loop :: "cell list \<Rightarrow> (nat \<times> nat \<times> nat) list \<Rightarrow> (marker \<times> nat list) option" where
  "checkWinner_loop bd [] = None"
| "checkWinner_loop bd ((a, b, c) # rest) =
     (case board_at bd (Num (int a)) of
        Value (Some val) \<Rightarrow>
          if board_at bd (Num (int a)) = board_at bd (Num (int b))
             \<and> board_at bd (Num (int b)) = board_at bd (Num (int c))
          then Some (val, [a, b, c])
          else checkWinner_loop bd rest
      | Value None \<Rightarrow> checkWinner_loop bd rest
      | Undefined \<Rightarrow> checkWinner_loop bd rest)"

definition checkWinner :: "cell list \<Rightarrow> (marker \<times> nat list) option" where
  "checkWinner bd = checkWinner_loop bd WIN_LINES"

text \<open>\<open>isDraw\<close> (lines 84-86): \<open>board.every((cell) => cell !== null)\<close>.\<close>

definition isDraw :: "cell list \<Rightarrow> bool" where
  "isDraw bd = list_all (\<lambda>cell. cell \<noteq> None) bd"

text \<open>
  \<open>restartGame\<close> (lines 127-138) assigns all five fields; hiding the overlay and the two
  rendering calls touch the page only and are not part of the state.
\<close>

definition restartGame :: "game_state \<Rightarrow> game_state" where
  "restartGame s =
     s\<lparr>board := replicate 9 None, currentPlayer := PlayerX, gameOver := False,
       winner := None, winningLine := None\<rparr>"

text \<open>
  A click event as \<open>handleCellClick\<close> reads it: whether the target carries the class
  \<open>cell\<close>, and the number \<open>parseInt(cell.dataset.index, 10)\<close>.
\<close>

record click_event =
  target_is_cell :: bool
  parsed_index :: js_number

text \<open>The board after line 171, \<open>state.board[index] = state.currentPlayer\<close>.\<close>

definition board_after_write :: "click_event \<Rightarrow> game_state \<Rightarrow> cell list" where
  "board_after_write ev s = board_set (board s) (parsed_index ev) (Some (currentPlayer s))"

text \<open>
  \<open>handleCellClick\<close> (lines 164-190). The two early returns give the state back unchanged.
  Rendering and the message overlay are left out.
\<close>

definition handleCellClick :: "click_event \<Rightarrow> game_state \<Rightarrow> game_state" where
  "handleCellClick ev s =
     (if \<not> target_is_cell ev then s
      else if gameOver s \<or> board_at (board s) (parsed_index ev) \<noteq> Value None then s
      else
        let s1 = s\<lparr>board := board_after_write ev s\<rparr> in
        (case checkWinner (board s1) of
           Some (w, l) \<Rightarrow> s1\<lparr>gameOver := True, winner := Some w, winningLine := Some l\<rparr>
         | None \<Rightarrow>
             if isDraw (board s1) then s1\<lparr>gameOver := True\<rparr>
             else s1\<lparr>currentPlayer :=
                       (if currentPlayer s1 = PlayerX then PlayerO else PlayerX)\<rparr>))"

text \<open>
  A move is accepted when neither early return is taken: the target is a cell, the game is
  not over and the cell read is \<open>null\<close>.
\<close>

definition accepted :: "click_event \<Rightarrow> game_state \<Rightarrow> bool" where
  "accepted ev s \<longleftrightarrow>
     target_is_cell ev \<and> \<not> gameOver s \<and> board_at (board s) (parsed_index ev) = Value None"

text \<open>A click on the cell with \<open>data-index\<close> \<open>i\<close>.\<close>

definition cell_click :: "int \<Rightarrow> click_event" where
  "cell_click i = \<lparr>target_is_cell = True, parsed_index = Num i\<rparr>"

subsection \<open>The event loop\<close>

text \<open>
  Lines 193-194 register \<open>handleCellClick\<close> and \<open>restartGame\<close> as the listeners, and line 199
  calls \<open>restartGame()\<close> once at start. A run is the list of events dispatched, in order.
\<close>

datatype action = Click click_event | Restart

fun dispatch :: "action \<Rightarrow> game_state \<Rightarrow> game_state" where
  "dispatch (Click ev) s = handleCellClick ev s"
| "dispatch Restart s = restartGame s"

fun run :: "action list \<Rightarrow> game_state \<Rightarrow> game_state" where
  "run [] s = s"
| "run (a # as) s = run as (dispatch a s)"

text \<open>The moves at a list of cell indices, one click each.\<close>

definition moves :: "int list \<Rightarrow> action list" where
  "moves is = map (\<lambda>i. Click (cell_click i)) is"

section \<open>Theme preference\<close>

text \<open>
  \<open>initTheme\<close> (lines 48-59) reads the stored theme inside \<open>try\<close>. The one call that can
  throw is \<open>localStorage.getItem(THEME_STORAGE_KEY)\<close> (the access to \<open>localStorage\<close> itself
  included); its outcome is the argument: \<open>Inl\<close> when it throws, \<open>Inr None\<close> when it returns
  \<open>null\<close>, \<open>Inr (Some v)\<close> when it returns the string \<open>v\<close>.
\<close>

datatype js_error = Thrown string

definition THEMES :: "string list" where
  "THEMES = [''dark'', ''light'', ''retro'', ''ocean'', ''sunset'', ''forest'']"

text \<open>
  The body of the \<open>try\<close> block, lines 51-54: \<open>getItem(...) || 'dark'\<close> replaces \<open>null\<close> and
  the empty string, both falsy, by \<open>'dark'\<close>; then the \<open>includes\<close> test. A throw leaves the
  block before \<open>saved\<close> is assigned.
\<close>

definition initTheme_try :: "js_error + string option \<Rightarrow> js_error + string" where
  "initTheme_try r =
     (case r of
        Inl e \<Rightarrow> Inl e
      | Inr item \<Rightarrow>
          let saved = (case item of None \<Rightarrow> ''dark''
                       | Some v \<Rightarrow> if v = [] then ''dark'' else v)
          in Inr (if \<not> (saved \<in> set THEMES) then ''dark'' else saved))"

text \<open>
  The value of \<open>saved\<close> at line 58, where it is handed to \<open>applyTheme\<close>: \<open>let saved = 'dark'\<close>
  survives when the block throws, since \<open>catch (e)\<close> ignores the error. The result type keeps
  the error case, so that "does not raise" is a statement about the value.
\<close>

definition initTheme_saved :: "js_error + string option \<Rightarrow> js_error + string" where
  "initTheme_saved r =
     (case initTheme_try r of Inl e \<Rightarrow> Inr ''dark'' | Inr saved \<Rightarrow> Inr saved)"

section \<open>The vocabulary of the specification\<close>

text \<open>
  A line is complete when its three cells are non-empty and equal: the first cell holds a
  marker and the other two hold the same value.
\<close>

definition line_complete :: "cell list \<Rightarrow> (nat \<times> nat \<times> nat) \<Rightarrow> bool" where
  "line_complete bd l =
     (case l of (a, b, c) \<Rightarrow>
        board_at bd (Num (int a)) \<noteq> Undefined
        \<and> board_at bd (Num (int a)) \<noteq> Value None
        \<and> board_at bd (Num (int b)) = board_at bd (Num (int a))
        \<and> board_at bd (Num (int c)) = board_at bd (Num (int a)))"

definition winning_line_exists :: "cell list \<Rightarrow> bool" where
  "winning_line_exists bd = list_ex (line_complete bd) WIN_LINES"

text \<open>All nine cells, 0 to 8, hold a marker.\<close>

definition all_cells_occupied :: "cell list \<Rightarrow> bool" where
  "all_cells_occupied bd =
     list_all (\<lambda>i. board_at bd (Num (int i)) \<noteq> Undefined
                    \<and> board_at bd (Num (int i)) \<noteq> Value None) [0..<9]"

definition count_marker :: "marker \<Rightarrow> cell list \<Rightarrow> nat" where
  "count_marker m bd = count_list bd (Some m)"

definition other_marker :: "marker \<Rightarrow> marker" where
  "other_marker m = (if m = PlayerX then PlayerO else PlayerX)"

text \<open>
  The markers written by the accepted moves of a sequence of clicks, in order: an accepted
  click writes \<open>currentPlayer\<close> (line 171), a rejected one writes nothing.
\<close>

fun movers :: "click_event list \<Rightarrow> game_state \<Rightarrow> marker list" where
  "movers [] s = []"
| "movers (ev # evs) s =
     (if accepted ev s then currentPlayer s # movers evs (handleCellClick ev s)
      else movers evs (handleCellClick ev s))"

fun alternating :: "marker \<Rightarrow> marker list \<Rightarrow> bool" where
  "alternating m [] = True"
| "alternating m (x # xs) = (x = m \<and> alternating (other_marker m) xs)"

subsection \<open>Invariants of the reachable states\<close>

definition state_inv :: "game_state \<Rightarrow> bool" where
  "state_inv s \<longleftrightarrow>
     length (board s) = 9
     \<and> (gameOver s \<longleftrightarrow> winning_line_exists (board s) \<or> isDraw (board s))
     \<and> (winner s \<noteq> None \<longleftrightarrow> winning_line_exists (board s))
     \<and> (winningLine s \<noteq> None \<longleftrightarrow> winning_line_exists (board s))"

definition count_inv :: "game_state \<Rightarrow> bool" where
  "count_inv s \<longleftrightarrow>
     (if gameOver s
      then count_marker PlayerX (board s) = count_marker PlayerO (board s)
           \<or> count_marker PlayerX (board s) = count_marker PlayerO (board s) + 1
      else (currentPlayer s = PlayerX
              \<and> count_marker PlayerX (board s) = count_marker PlayerO (board s))
           \<or> (currentPlayer s = PlayerO
              \<and> count_marker PlayerX (board s) = count_marker PlayerO (board s) + 1))"

section \<open>Properties of the game logic\<close>

lemma checkWinner_loop_find:
  "checkWinner_loop bd ls =
     (case find (line_complete bd) ls of
        None \<Rightarrow> None
      | Some (a, b, c) \<Rightarrow>
          (case board_at bd (Num (int a)) of
             Value (Some m) \<Rightarrow> Some (m, [a, b, c])
           | _ \<Rightarrow> None))"
  by (induction bd ls rule: checkWinner_loop.induct)
     (auto simp: line_complete_def split: js_read.splits option.splits)

lemma line_complete_marker:
  "line_complete bd (a, b, c) \<Longrightarrow> \<exists>m. board_at bd (Num (int a)) = Value (Some m)"
  by (cases "board_at bd (Num (int a))") (auto simp: line_complete_def)

lemma checkWinner_Some:
  assumes "find (line_complete bd) WIN_LINES = Some (a, b, c)"
  shows "\<exists>m. board_at bd (Num (int a)) = Value (Some m) \<and> checkWinner bd = Some (m, [a, b, c])"
proof -
  from assms have "line_complete bd (a, b, c)"
    by (auto simp: find_Some_iff)
  then obtain m where "board_at bd (Num (int a)) = Value (Some m)"
    using line_complete_marker by blast
  with assms show ?thesis
    by (simp add: checkWinner_def checkWinner_loop_find)
qed

lemma checkWinner_None_iff:
  "checkWinner bd = None \<longleftrightarrow> \<not> winning_line_exists bd"
proof (cases "find (line_complete bd) WIN_LINES")
  case None
  then have "checkWinner bd = None"
    by (simp add: checkWinner_def checkWinner_loop_find)
  moreover from None have "\<not> winning_line_exists bd"
    by (auto simp: winning_line_exists_def find_None_iff list_ex_iff)
  ultimately show ?thesis by simp
next
  case (Some l)
  obtain a b c where l: "l = (a, b, c)" by (cases l)
  from Some have "line_complete bd l \<and> l \<in> set WIN_LINES"
    by (auto simp: find_Some_iff)
  then have "winning_line_exists bd"
    by (auto simp: winning_line_exists_def list_ex_iff)
  moreover from Some l checkWinner_Some have "checkWinner bd \<noteq> None"
    by fastforce
  ultimately show ?thesis by simp
qed

lemma board_at_Value:
  "board_at bd n = Value c \<Longrightarrow>
     \<exists>i. n = Num i \<and> 0 \<le> i \<and> i < int (length bd) \<and> bd ! nat i = c"
  by (cases n) (auto split: if_splits)

lemma length_board_set [simp]: "length (board_set bd n v) = length bd"
  by (cases n) auto

lemma isDraw_all_cells_occupied:
  "length bd = 9 \<Longrightarrow> isDraw bd = all_cells_occupied bd"
  by (auto simp: isDraw_def all_cells_occupied_def list_all_iff all_set_conv_all_nth)

lemma count_list_update:
  "i < length bd \<Longrightarrow> bd ! i = None \<Longrightarrow>
     count_list (bd[i := Some m]) (Some m') = count_list bd (Some m') + (if m' = m then 1 else 0)"
  by (induction bd arbitrary: i) (auto simp: nth_Cons split: nat.splits)

lemma click_rejected: "\<not> accepted ev s \<Longrightarrow> handleCellClick ev s = s"
  by (auto simp: handleCellClick_def accepted_def)

lemma click_win:
  "accepted ev s \<Longrightarrow> checkWinner (board_after_write ev s) = Some (w, l) \<Longrightarrow>
     handleCellClick ev s =
       s\<lparr>board := board_after_write ev s, gameOver := True, winner := Some w,
         winningLine := Some l\<rparr>"
  by (simp add: handleCellClick_def accepted_def)

lemma click_draw:
  "accepted ev s \<Longrightarrow> checkWinner (board_after_write ev s) = None \<Longrightarrow>
     isDraw (board_after_write ev s) \<Longrightarrow>
     handleCellClick ev s = s\<lparr>board := board_after_write ev s, gameOver := True\<rparr>"
  by (simp add: handleCellClick_def accepted_def)

lemma click_continue:
  "accepted ev s \<Longrightarrow> checkWinner (board_after_write ev s) = None \<Longrightarrow>
     \<not> isDraw (board_after_write ev s) \<Longrightarrow>
     handleCellClick ev s =
       s\<lparr>board := board_after_write ev s, currentPlayer := other_marker (currentPlayer s)\<rparr>"
  by (simp add: handleCellClick_def accepted_def other_marker_def)

lemma click_cases:
  assumes "accepted ev s"
  obtains (win) w l where "checkWinner (board_after_write ev s) = Some (w, l)"
      "handleCellClick ev s =
         s\<lparr>board := board_after_write ev s, gameOver := True, winner := Some w,
           winningLine := Some l\<rparr>"
  | (draw) "checkWinner (board_after_write ev s) = None" "isDraw (board_after_write ev s)"
      "handleCellClick ev s = s\<lparr>board := board_after_write ev s, gameOver := True\<rparr>"
  | (continue) "checkWinner (board_after_write ev s) = None"
      "\<not> isDraw (board_after_write ev s)"
      "handleCellClick ev s =
         s\<lparr>board := board_after_write ev s, currentPlayer := other_marker (currentPlayer s)\<rparr>"
proof (cases "checkWinner (board_after_write ev s)")
  case None
  with assms show ?thesis
    by (cases "isDraw (board_after_write ev s)") (auto intro: draw continue click_draw click_continue)
next
  case (Some p)
  obtain w l where "p = (w, l)" by (cases p)
  with Some assms show ?thesis
    by (auto intro: win click_win)
qed

lemma board_click:
  "accepted ev s \<Longrightarrow> board (handleCellClick ev s) = board_after_write ev s"
  by (erule click_cases) simp_all

lemma written_cell:
  assumes "accepted ev s"
  shows "board_at (board_after_write ev s) (parsed_index ev) = Value (Some (currentPlayer s))"
proof -
  from assms have "board_at (board s) (parsed_index ev) = Value None"
    by (simp add: accepted_def)
  then obtain i where "parsed_index ev = Num i" "0 \<le> i" "i < int (length (board s))"
    using board_at_Value by blast
  then show ?thesis
    by (simp add: board_after_write_def)
qed

lemma count_after_write:
  assumes "accepted ev s"
  shows "count_marker m (board_after_write ev s) =
           count_marker m (board s) + (if m = currentPlayer s then 1 else 0)"
proof -
  from assms have "board_at (board s) (parsed_index ev) = Value None"
    by (simp add: accepted_def)
  then obtain i where i: "parsed_index ev = Num i" "0 \<le> i" "i < int (length (board s))"
      "board s ! nat i = None"
    using board_at_Value by blast
  then have "nat i < length (board s)" by simp
  with i show ?thesis
    by (simp add: board_after_write_def count_marker_def count_list_update)
qed

lemma state_inv_initial: "state_inv initial_state"
  by (simp add: state_inv_def initial_state_def winning_line_exists_def WIN_LINES_def
      line_complete_def isDraw_def eval_nat_numeral)

lemma restartGame_initial: "restartGame s = initial_state"
  by (simp add: restartGame_def initial_state_def)

lemma state_inv_click:
  assumes "state_inv s"
  shows "state_inv (handleCellClick ev s)"
proof (cases "accepted ev s")
  case False
  with assms show ?thesis by (simp add: click_rejected)
next
  case True
  then have len: "length (board_after_write ev s) = 9"
    using assms by (simp add: board_after_write_def state_inv_def)
  from True have go: "\<not> gameOver s" by (simp add: accepted_def)
  with assms have old: "winner s = None" "winningLine s = None"
    by (auto simp: state_inv_def)
  from True show ?thesis
  proof (cases rule: click_cases)
    case (win w l)
    then show ?thesis
      using len checkWinner_None_iff [of "board_after_write ev s"]
      by (simp add: state_inv_def)
  next
    case draw
    then show ?thesis
      using len old checkWinner_None_iff [of "board_after_write ev s"]
      by (simp add: state_inv_def)
  next
    case continue
    then show ?thesis
      using len old go checkWinner_None_iff [of "board_after_write ev s"]
      by (simp add: state_inv_def)
  qed
qed

lemma state_inv_dispatch: "state_inv s \<Longrightarrow> state_inv (dispatch a s)"
  by (cases a) (simp_all add: state_inv_click restartGame_initial state_inv_initial)

lemma state_inv_run: "state_inv s \<Longrightarrow> state_inv (run acts s)"
  by (induction acts arbitrary: s) (simp_all add: state_inv_dispatch)

lemma count_inv_initial: "count_inv initial_state"
  by (simp add: count_inv_def initial_state_def count_marker_def eval_nat_numeral)

lemma count_inv_click:
  assumes "count_inv s"
  shows "count_inv (handleCellClick ev s)"
proof (cases "accepted ev s")
  case False
  with assms show ?thesis by (simp add: click_rejected)
next
  case True
  then have go: "\<not> gameOver s" by (simp add: accepted_def)
  note cnt = count_after_write [OF True]
  from True show ?thesis
  proof (cases rule: click_cases)
    case (win w l)
    with assms go show ?thesis
      by (auto simp: count_inv_def cnt)
  next
    case draw
    with assms go show ?thesis
      by (auto simp: count_inv_def cnt)
  next
    case continue
    with assms go show ?thesis
      by (auto simp: count_inv_def cnt other_marker_def)
  qed
qed

lemma count_inv_dispatch: "count_inv s \<Longrightarrow> count_inv (dispatch a s)"
  by (cases a) (simp_all add: count_inv_click restartGame_initial count_inv_initial)

lemma count_inv_run: "count_inv s \<Longrightarrow> count_inv (run acts s)"
  by (induction acts arbitrary: s) (simp_all add: count_inv_dispatch)

lemma movers_game_over: "gameOver s \<Longrightarrow> movers evs s = []"
  by (induction evs) (simp_all add: accepted_def click_rejected)

lemma alternating_movers: "alternating (currentPlayer s) (movers evs s)"
proof (induction evs arbitrary: s)
  case Nil
  show ?case by simp
next
  case (Cons ev evs)
  show ?case
  proof (cases "accepted ev s")
    case False
    then show ?thesis
      using Cons.IH [of s] by (simp add: click_rejected)
  next
    case True
    then show ?thesis
    proof (cases rule: click_cases)
      case (win w l)
      then show ?thesis using True by (simp add: movers_game_over)
    next
      case draw
      then show ?thesis using True by (simp add: movers_game_over)
    next
      case continue
      then show ?thesis
        using True Cons.IH [of "handleCellClick ev s"] by simp
    qed
  qed
qed

section \<open>The move operation\<close>

text \<open>
  C1: when an accepted move (game not over, targeted cell empty) has written the current
  player's marker and some line of \<open>WIN_LINES\<close> then has three non-empty equal cells, the
  move sets \<open>gameOver\<close>, sets \<open>winner\<close> to the marker of the first such line in the listed
  order and \<open>winningLine\<close> to that line, and leaves \<open>currentPlayer\<close> as it was.
\<close>

theorem winning_move:
  assumes "accepted ev s"
    and "l \<in> set WIN_LINES"
    and "line_complete (board_after_write ev s) l"
  shows "\<exists>a b c m.
           find (line_complete (board_after_write ev s)) WIN_LINES = Some (a, b, c)
           \<and> board_at (board_after_write ev s) (Num (int a)) = Value (Some m)
           \<and> board_at (board_after_write ev s) (parsed_index ev) = Value (Some (currentPlayer s))
           \<and> handleCellClick ev s =
               s\<lparr>board := board_after_write ev s, gameOver := True, winner := Some m,
                 winningLine := Some [a, b, c]\<rparr>
           \<and> currentPlayer (handleCellClick ev s) = currentPlayer s"
proof -
  from assms(2,3) have "find (line_complete (board_after_write ev s)) WIN_LINES \<noteq> None"
    unfolding find_None_iff by blast
  then obtain t where "find (line_complete (board_after_write ev s)) WIN_LINES = Some t"
    by blast
  moreover obtain a b c where "t = (a, b, c)" by (cases t)
  ultimately have f: "find (line_complete (board_after_write ev s)) WIN_LINES = Some (a, b, c)"
    by simp
  then obtain m where m: "board_at (board_after_write ev s) (Num (int a)) = Value (Some m)"
      "checkWinner (board_after_write ev s) = Some (m, [a, b, c])"
    using checkWinner_Some by blast
  from click_win [OF assms(1) m(2)] f m(1) written_cell [OF assms(1)]
  show ?thesis by simp
qed

text \<open>
  The ninth move of this game completes both diagonals at once; the line reported is
  \<open>[0, 4, 8]\<close>, listed before \<open>[2, 4, 6]\<close>.
\<close>

theorem winning_move_witness:
  "accepted (cell_click 4) (run (moves [0, 1, 2, 3, 6, 5, 8, 7]) initial_state)
   \<and> (2, 4, 6) \<in> set WIN_LINES
   \<and> line_complete
        (board_after_write (cell_click 4) (run (moves [0, 1, 2, 3, 6, 5, 8, 7]) initial_state))
        (2, 4, 6)
   \<and> handleCellClick (cell_click 4) (run (moves [0, 1, 2, 3, 6, 5, 8, 7]) initial_state) =
       \<lparr>board = [Some PlayerX, Some PlayerO, Some PlayerX,
                 Some PlayerO, Some PlayerX, Some PlayerO,
                 Some PlayerX, Some PlayerO, Some PlayerX],
        currentPlayer = PlayerX, gameOver = True,
        winner = Some PlayerX, winningLine = Some [0, 4, 8]\<rparr>
   \<and> (\<exists>a b c m.
         find (line_complete (board_after_write (cell_click 4)
                (run (moves [0, 1, 2, 3, 6, 5, 8, 7]) initial_state))) WIN_LINES = Some (a, b, c)
         \<and> winningLine (handleCellClick (cell_click 4)
                (run (moves [0, 1, 2, 3, 6, 5, 8, 7]) initial_state)) = Some [a, b, c]
         \<and> winner (handleCellClick (cell_click 4)
                (run (moves [0, 1, 2, 3, 6, 5, 8, 7]) initial_state)) = Some m)"
proof -
  let ?s = "run (moves [0, 1, 2, 3, 6, 5, 8, 7]) initial_state"
  have h1: "accepted (cell_click 4) ?s" by code_simp
  have h2: "(2, 4, 6) \<in> set WIN_LINES" by code_simp
  have h3: "line_complete (board_after_write (cell_click 4) ?s) (2, 4, 6)" by code_simp
  have h4: "handleCellClick (cell_click 4) ?s =
       \<lparr>board = [Some PlayerX, Some PlayerO, Some PlayerX,
                 Some PlayerO, Some PlayerX, Some PlayerO,
                 Some PlayerX, Some PlayerO, Some PlayerX],
        currentPlayer = PlayerX, gameOver = True,
        winner = Some PlayerX, winningLine = Some [0, 4, 8]\<rparr>" by code_simp
  from winning_move [OF h1 h2 h3] obtain a b c m where
    "find (line_complete (board_after_write (cell_click 4) ?s)) WIN_LINES = Some (a, b, c)"
    "handleCellClick (cell_click 4) ?s =
       ?s\<lparr>board := board_after_write (cell_click 4) ?s, gameOver := True, winner := Some m,
          winningLine := Some [a, b, c]\<rparr>"
    by blast
  then have "\<exists>a b c m.
         find (line_complete (board_after_write (cell_click 4) ?s)) WIN_LINES = Some (a, b, c)
         \<and> winningLine (handleCellClick (cell_click 4) ?s) = Some [a, b, c]
         \<and> winner (handleCellClick (cell_click 4) ?s) = Some m"
    by auto
  with h1 h2 h3 h4 show ?thesis by blast
qed


text \<open>
  C2: in a state reached from the initial state, an accepted move that leaves no complete
  line and all nine cells occupied sets \<open>gameOver\<close> and changes nothing else but the board,
  so \<open>winner\<close> and \<open>winningLine\<close> stay absent. The draw test comes after the winner test:
  a full board that holds a complete line ends as a win, with \<open>winner\<close> and \<open>winningLine\<close>
  set.
\<close>

theorem draw_move:
  assumes "s = run acts initial_state"
    and "accepted ev s"
  shows "(\<not> winning_line_exists (board_after_write ev s)
            \<and> all_cells_occupied (board_after_write ev s) \<longrightarrow>
          handleCellClick ev s = s\<lparr>board := board_after_write ev s, gameOver := True\<rparr>
          \<and> gameOver (handleCellClick ev s)
          \<and> winner (handleCellClick ev s) = None
          \<and> winningLine (handleCellClick ev s) = None)
       \<and> (winning_line_exists (board_after_write ev s)
            \<and> all_cells_occupied (board_after_write ev s) \<longrightarrow>
          gameOver (handleCellClick ev s)
          \<and> winner (handleCellClick ev s) \<noteq> None
          \<and> winningLine (handleCellClick ev s) \<noteq> None)"
proof -
  from assms(1) have inv: "state_inv s"
    by (simp add: state_inv_run state_inv_initial)
  from assms(2) have "\<not> gameOver s" by (simp add: accepted_def)
  with inv have old: "winner s = None" "winningLine s = None"
    by (auto simp: state_inv_def)
  from inv have "length (board_after_write ev s) = 9"
    by (simp add: state_inv_def board_after_write_def)
  then have full: "isDraw (board_after_write ev s) = all_cells_occupied (board_after_write ev s)"
    by (rule isDraw_all_cells_occupied)
  from assms(2) show ?thesis
  proof (cases rule: click_cases)
    case (win w l)
    then show ?thesis
      using checkWinner_None_iff [of "board_after_write ev s"] by simp
  next
    case draw
    then show ?thesis
      using old full checkWinner_None_iff [of "board_after_write ev s"] by simp
  next
    case continue
    then show ?thesis
      using full checkWinner_None_iff [of "board_after_write ev s"] by simp
  qed
qed

text \<open>
  Both cases on games of nine moves: the first ends with no line, the second with the two
  diagonals completed by the last move.
\<close>

theorem draw_move_witness:
  "accepted (cell_click 8) (run (moves [0, 1, 2, 4, 3, 5, 7, 6]) initial_state)
   \<and> \<not> winning_line_exists
        (board_after_write (cell_click 8) (run (moves [0, 1, 2, 4, 3, 5, 7, 6]) initial_state))
   \<and> all_cells_occupied
        (board_after_write (cell_click 8) (run (moves [0, 1, 2, 4, 3, 5, 7, 6]) initial_state))
   \<and> gameOver (handleCellClick (cell_click 8)
        (run (moves [0, 1, 2, 4, 3, 5, 7, 6]) initial_state))
   \<and> winner (handleCellClick (cell_click 8)
        (run (moves [0, 1, 2, 4, 3, 5, 7, 6]) initial_state)) = None
   \<and> winningLine (handleCellClick (cell_click 8)
        (run (moves [0, 1, 2, 4, 3, 5, 7, 6]) initial_state)) = None
   \<and> accepted (cell_click 4) (run (moves [0, 1, 2, 3, 6, 5, 8, 7]) initial_state)
   \<and> winning_line_exists
        (board_after_write (cell_click 4) (run (moves [0, 1, 2, 3, 6, 5, 8, 7]) initial_state))
   \<and> all_cells_occupied
        (board_after_write (cell_click 4) (run (moves [0, 1, 2, 3, 6, 5, 8, 7]) initial_state))
   \<and> gameOver (handleCellClick (cell_click 4)
        (run (moves [0, 1, 2, 3, 6, 5, 8, 7]) initial_state))
   \<and> winner (handleCellClick (cell_click 4)
        (run (moves [0, 1, 2, 3, 6, 5, 8, 7]) initial_state)) \<noteq> None"
proof -
  let ?d = "run (moves [0, 1, 2, 4, 3, 5, 7, 6]) initial_state"
  let ?w = "run (moves [0, 1, 2, 3, 6, 5, 8, 7]) initial_state"
  have d1: "accepted (cell_click 8) ?d" by code_simp
  have d2: "\<not> winning_line_exists (board_after_write (cell_click 8) ?d)" by code_simp
  have d3: "all_cells_occupied (board_after_write (cell_click 8) ?d)" by code_simp
  have w1: "accepted (cell_click 4) ?w" by code_simp
  have w2: "winning_line_exists (board_after_write (cell_click 4) ?w)" by code_simp
  have w3: "all_cells_occupied (board_after_write (cell_click 4) ?w)" by code_simp
  from draw_move [OF refl d1] d2 d3
  have "gameOver (handleCellClick (cell_click 8) ?d)
      \<and> winner (handleCellClick (cell_click 8) ?d) = None
      \<and> winningLine (handleCellClick (cell_click 8) ?d) = None"
    by blast
  moreover from draw_move [OF refl w1] w2 w3
  have "gameOver (handleCellClick (cell_click 4) ?w)
      \<and> winner (handleCellClick (cell_click 4) ?w) \<noteq> None"
    by blast
  ultimately show ?thesis
    using d1 d2 d3 w1 w2 w3 by blast
qed

text \<open>
  C3: when \<open>gameOver\<close> is true, or the targeted cell already holds a marker, the move
  operation gives back the very same state: board, \<open>currentPlayer\<close>, \<open>gameOver\<close>, \<open>winner\<close>
  and \<open>winningLine\<close> are unchanged, and the result is a state, not an error.
\<close>

theorem rejected_move_is_noop:
  assumes "gameOver s \<or> (\<exists>m. board_at (board s) (parsed_index ev) = Value (Some m))"
  shows "handleCellClick ev s = s"
  using assms by (auto simp: handleCellClick_def)

text \<open>
  A click after a finished game, and a second click on cell 0.
\<close>

theorem rejected_move_is_noop_witness:
  "(gameOver (run (moves [0, 3, 1, 4, 2]) initial_state)
    \<or> (\<exists>m. board_at (board (run (moves [0, 3, 1, 4, 2]) initial_state))
              (parsed_index (cell_click 5)) = Value (Some m)))
   \<and> handleCellClick (cell_click 5) (run (moves [0, 3, 1, 4, 2]) initial_state) =
       run (moves [0, 3, 1, 4, 2]) initial_state
   \<and> (gameOver (run (moves [0]) initial_state)
    \<or> (\<exists>m. board_at (board (run (moves [0]) initial_state))
              (parsed_index (cell_click 0)) = Value (Some m)))
   \<and> handleCellClick (cell_click 0) (run (moves [0]) initial_state) =
       run (moves [0]) initial_state"
proof -
  have g: "gameOver (run (moves [0, 3, 1, 4, 2]) initial_state)" by code_simp
  have "board_at (board (run (moves [0]) initial_state)) (parsed_index (cell_click 0))
          = Value (Some PlayerX)" by code_simp
  then have b: "\<exists>m. board_at (board (run (moves [0]) initial_state))
                       (parsed_index (cell_click 0)) = Value (Some m)" by blast
  from g have h1: "gameOver (run (moves [0, 3, 1, 4, 2]) initial_state)
    \<or> (\<exists>m. board_at (board (run (moves [0, 3, 1, 4, 2]) initial_state))
              (parsed_index (cell_click 5)) = Value (Some m))" by blast
  from b have h2: "gameOver (run (moves [0]) initial_state)
    \<or> (\<exists>m. board_at (board (run (moves [0]) initial_state))
              (parsed_index (cell_click 0)) = Value (Some m))" by blast
  from h1 h2 rejected_move_is_noop [OF h1] rejected_move_is_noop [OF h2]
  show ?thesis by blast
qed

section \<open>Restart\<close>

text \<open>
  C4: \<open>restartGame\<close> has no precondition and, from every state, yields the initial state:
  nine empty cells, \<open>'X'\<close> to move, \<open>gameOver\<close> false, \<open>winner\<close> and \<open>winningLine\<close> absent.
\<close>

theorem restart_yields_initial:
  "restartGame s =
     \<lparr>board = [None, None, None, None, None, None, None, None, None],
      currentPlayer = PlayerX, gameOver = False, winner = None, winningLine = None\<rparr>
   \<and> restartGame s = initial_state"
  by (simp add: restartGame_def initial_state_def eval_nat_numeral)

section \<open>Turn order\<close>

text \<open>
  C5 (amended): across every sequence of clicks from the initial state, the markers written
  by the accepted moves alternate, starting with \<open>'X'\<close>. An accepted move writes the current
  player's marker, and it leaves \<open>currentPlayer\<close> untoggled exactly when it ends the game:
  when it completes a line, or when it fills the board. Otherwise \<open>currentPlayer\<close> becomes the
  other marker and the game goes on.
\<close>

theorem movers_alternate:
  "alternating PlayerX (movers evs initial_state)
   \<and> (accepted ev s \<longrightarrow>
        board_at (board (handleCellClick ev s)) (parsed_index ev) = Value (Some (currentPlayer s))
        \<and> (currentPlayer (handleCellClick ev s) = currentPlayer s
             \<longleftrightarrow> winning_line_exists (board (handleCellClick ev s))
                 \<or> isDraw (board (handleCellClick ev s)))
        \<and> (currentPlayer (handleCellClick ev s) \<noteq> currentPlayer s
             \<longrightarrow> currentPlayer (handleCellClick ev s) = other_marker (currentPlayer s)
                 \<and> \<not> gameOver (handleCellClick ev s)))"
proof -
  have "alternating (currentPlayer initial_state) (movers evs initial_state)"
    by (rule alternating_movers)
  then have a: "alternating PlayerX (movers evs initial_state)"
    by (simp add: initial_state_def)
  have b: "board_at (board (handleCellClick ev s)) (parsed_index ev) = Value (Some (currentPlayer s))
        \<and> (currentPlayer (handleCellClick ev s) = currentPlayer s
             \<longleftrightarrow> winning_line_exists (board (handleCellClick ev s))
                 \<or> isDraw (board (handleCellClick ev s)))
        \<and> (currentPlayer (handleCellClick ev s) \<noteq> currentPlayer s
             \<longrightarrow> currentPlayer (handleCellClick ev s) = other_marker (currentPlayer s)
                 \<and> \<not> gameOver (handleCellClick ev s))" if acc: "accepted ev s"
  proof -
    from acc have go: "\<not> gameOver s" by (simp add: accepted_def)
    note w = written_cell [OF acc]
    note n = checkWinner_None_iff [of "board_after_write ev s"]
    from acc show ?thesis
    proof (cases rule: click_cases)
      case (win w' l)
      then show ?thesis using w n by simp
    next
      case draw
      then show ?thesis using w n by simp
    next
      case continue
      then show ?thesis using w n go by (simp add: other_marker_def)
    qed
  qed
  from a b show ?thesis by blast
qed

text \<open>
  The nine moves of a drawn game, and the second move of a game.
\<close>

theorem movers_alternate_witness:
  "alternating PlayerX (movers (map cell_click [0, 1, 2, 4, 3, 5, 7, 6, 8]) initial_state)
   \<and> movers (map cell_click [0, 1, 2, 4, 3, 5, 7, 6, 8]) initial_state
       = [PlayerX, PlayerO, PlayerX, PlayerO, PlayerX, PlayerO, PlayerX, PlayerO, PlayerX]
   \<and> accepted (cell_click 3) (run (moves [0]) initial_state)
   \<and> currentPlayer (handleCellClick (cell_click 3) (run (moves [0]) initial_state))
       = other_marker (currentPlayer (run (moves [0]) initial_state))
   \<and> \<not> gameOver (handleCellClick (cell_click 3) (run (moves [0]) initial_state))"
proof -
  have m: "movers (map cell_click [0, 1, 2, 4, 3, 5, 7, 6, 8]) initial_state
       = [PlayerX, PlayerO, PlayerX, PlayerO, PlayerX, PlayerO, PlayerX, PlayerO, PlayerX]"
    by code_simp
  have acc: "accepted (cell_click 3) (run (moves [0]) initial_state)" by code_simp
  have ne: "currentPlayer (handleCellClick (cell_click 3) (run (moves [0]) initial_state))
       \<noteq> currentPlayer (run (moves [0]) initial_state)" by code_simp
  from movers_alternate [of "map cell_click [0, 1, 2, 4, 3, 5, 7, 6, 8]" "cell_click 3"
      "run (moves [0]) initial_state"] m acc ne
  show ?thesis by blast
qed

text \<open>
  The winning move is not the only one that leaves \<open>currentPlayer\<close> untoggled: the ninth
  move of the drawn game 0, 1, 2, 4, 3, 5, 7, 6, 8 is accepted, completes no line, and
  \<open>currentPlayer\<close> is the same before and after it.
\<close>

theorem toggle_only_on_winning_move_counterexample:
  "accepted (cell_click 8) (run (moves [0, 1, 2, 4, 3, 5, 7, 6]) initial_state)
   \<and> \<not> winning_line_exists
        (board (handleCellClick (cell_click 8)
           (run (moves [0, 1, 2, 4, 3, 5, 7, 6]) initial_state)))
   \<and> currentPlayer (handleCellClick (cell_click 8)
        (run (moves [0, 1, 2, 4, 3, 5, 7, 6]) initial_state))
     = currentPlayer (run (moves [0, 1, 2, 4, 3, 5, 7, 6]) initial_state)"
  by code_simp

section \<open>Invariants of the reachable states\<close>

text \<open>
  C6: in every state reached from the initial state by clicks and restarts, the board has
  nine cells, \<open>gameOver\<close> holds exactly when a complete line exists or all nine cells are
  occupied, and \<open>winner\<close> is set exactly when a complete line exists; on a full board with no
  line \<open>winner\<close> is absent.
\<close>

theorem game_over_iff:
  assumes "s = run acts initial_state"
  shows "length (board s) = 9
       \<and> (gameOver s \<longleftrightarrow> winning_line_exists (board s) \<or> all_cells_occupied (board s))
       \<and> (winner s \<noteq> None \<longleftrightarrow> winning_line_exists (board s))
       \<and> (all_cells_occupied (board s) \<and> \<not> winning_line_exists (board s) \<longrightarrow> winner s = None)"
proof -
  from assms have inv: "state_inv s"
    by (simp add: state_inv_run state_inv_initial)
  then have "length (board s) = 9" by (simp add: state_inv_def)
  then have "isDraw (board s) = all_cells_occupied (board s)"
    by (rule isDraw_all_cells_occupied)
  with inv show ?thesis by (auto simp: state_inv_def)
qed

text \<open>
  The state after the nine moves of a drawn game.
\<close>

theorem game_over_iff_witness:
  "all_cells_occupied (board (run (moves [0, 1, 2, 4, 3, 5, 7, 6, 8]) initial_state))
   \<and> \<not> winning_line_exists (board (run (moves [0, 1, 2, 4, 3, 5, 7, 6, 8]) initial_state))
   \<and> gameOver (run (moves [0, 1, 2, 4, 3, 5, 7, 6, 8]) initial_state)
   \<and> winner (run (moves [0, 1, 2, 4, 3, 5, 7, 6, 8]) initial_state) = None"
proof -
  let ?s = "run (moves [0, 1, 2, 4, 3, 5, 7, 6, 8]) initial_state"
  have f: "all_cells_occupied (board ?s)" by code_simp
  have n: "\<not> winning_line_exists (board ?s)" by code_simp
  from game_over_iff [OF refl, of "moves [0, 1, 2, 4, 3, 5, 7, 6, 8]"] f n
  show ?thesis by blast
qed

text \<open>
  C7: in every state reached from the initial state by clicks and restarts, an accepted move
  adds one to the count of the current player's marker and leaves the other count as it was;
  the counts of \<open>'X'\<close> and \<open>'O'\<close> differ by at most one; and while the game is not over the
  count of \<open>'X'\<close> equals the count of \<open>'O'\<close> or exceeds it by one.
\<close>

theorem marker_counts:
  assumes "s = run acts initial_state"
  shows "(accepted ev s \<longrightarrow>
            count_marker m (board (handleCellClick ev s))
              = count_marker m (board s) + (if m = currentPlayer s then 1 else 0))
       \<and> count_marker PlayerX (board s) \<le> count_marker PlayerO (board s) + 1
       \<and> count_marker PlayerO (board s) \<le> count_marker PlayerX (board s) + 1
       \<and> (\<not> gameOver s \<longrightarrow>
            count_marker PlayerX (board s) = count_marker PlayerO (board s)
            \<or> count_marker PlayerX (board s) = count_marker PlayerO (board s) + 1)"
proof -
  from assms have "count_inv s"
    by (simp add: count_inv_run count_inv_initial)
  then have "count_marker PlayerX (board s) = count_marker PlayerO (board s)
            \<or> count_marker PlayerX (board s) = count_marker PlayerO (board s) + 1"
    by (auto simp: count_inv_def split: if_splits)
  moreover have "count_marker m (board (handleCellClick ev s))
              = count_marker m (board s) + (if m = currentPlayer s then 1 else 0)"
    if "accepted ev s"
    using that by (simp only: board_click count_after_write)
  ultimately show ?thesis by auto
qed

text \<open>
  The fourth move of a game, by \<open>'O'\<close>.
\<close>

theorem marker_counts_witness:
  "accepted (cell_click 4) (run (moves [0, 3, 1]) initial_state)
   \<and> \<not> gameOver (run (moves [0, 3, 1]) initial_state)
   \<and> currentPlayer (run (moves [0, 3, 1]) initial_state) = PlayerO
   \<and> count_marker PlayerO (board (handleCellClick (cell_click 4) (run (moves [0, 3, 1]) initial_state)))
       = count_marker PlayerO (board (run (moves [0, 3, 1]) initial_state)) + 1
   \<and> count_marker PlayerX (board (run (moves [0, 3, 1]) initial_state))
       = count_marker PlayerO (board (run (moves [0, 3, 1]) initial_state)) + 1"
proof -
  let ?s = "run (moves [0, 3, 1]) initial_state"
  have acc: "accepted (cell_click 4) ?s" by code_simp
  have go: "\<not> gameOver ?s" by code_simp
  have cp: "currentPlayer ?s = PlayerO" by code_simp
  have ne: "count_marker PlayerX (board ?s) \<noteq> count_marker PlayerO (board ?s)" by code_simp
  from marker_counts [OF refl, of "cell_click 4" "moves [0, 3, 1]" PlayerO] acc go cp ne
  show ?thesis by auto
qed

section \<open>Loading the theme\<close>

text \<open>
  C8: loading the stored theme never raises. It yields \<open>'dark'\<close> when the storage access
  throws, when no value is stored, and when the stored value is not one of \<open>dark\<close>, \<open>light\<close>,
  \<open>retro\<close>, \<open>ocean\<close>, \<open>sunset\<close>, \<open>forest\<close>; it yields the stored value when that is one of
  the six.
\<close>

theorem initTheme_saved_total:
  "initTheme_saved r =
     Inr (case r of
            Inl e \<Rightarrow> ''dark''
          | Inr None \<Rightarrow> ''dark''
          | Inr (Some v) \<Rightarrow>
              if v \<in> {''dark'', ''light'', ''retro'', ''ocean'', ''sunset'', ''forest''}
              then v else ''dark'')"
  by (auto simp: initTheme_saved_def initTheme_try_def THEMES_def Let_def
      split: sum.splits option.splits)

text \<open>
  The stored value \<open>neon\<close>, a throwing storage, an absent value and a recognised one.
\<close>

theorem initTheme_saved_total_witness:
  "initTheme_saved (Inr (Some ''neon'')) = Inr ''dark''
   \<and> initTheme_saved (Inl (Thrown ''SecurityError'')) = Inr ''dark''
   \<and> initTheme_saved (Inr None) = Inr ''dark''
   \<and> initTheme_saved (Inr (Some ''ocean'')) = Inr ''ocean''"
  using initTheme_saved_total [of "Inr (Some ''neon'')"]
    initTheme_saved_total [of "Inl (Thrown ''SecurityError'')"]
    initTheme_saved_total [of "Inr None"]
    initTheme_saved_total [of "Inr (Some ''ocean'')"]
  by simp

section \<open>Scenarios\<close>

text \<open>
  C9: from the initial state, the moves at indices 0, 3, 1, 4, 2 end, after the fifth move,
  with markerA (\<open>'X'\<close>) on cells 0, 1 and 2, the game over, \<open>'X'\<close> the winner and
  \<open>[0, 1, 2]\<close> the winning line.
\<close>

theorem top_row_scenario:
  "run (moves [0, 3, 1, 4, 2]) initial_state =
     \<lparr>board = [Some PlayerX, Some PlayerX, Some PlayerX,
               Some PlayerO, Some PlayerO, None,
               None, None, None],
      currentPlayer = PlayerX, gameOver = True,
      winner = Some PlayerX, winningLine = Some [0, 1, 2]\<rparr>"
  by code_simp

section \<open>Indices outside the board\<close>

text \<open>
  C10: on a nine-cell board, a click whose parsed index is not an integer from 0 to 8
  (\<open>NaN\<close> included) reads \<open>undefined\<close>, which is not \<open>null\<close>, so the handler returns early and
  the whole state is unchanged; nothing is written outside the board.
\<close>

theorem out_of_range_noop:
  assumes "length (board s) = 9"
    and "\<forall>i. parsed_index ev = Num i \<longrightarrow> i < 0 \<or> 8 < i"
  shows "board_at (board s) (parsed_index ev) = Undefined \<and> handleCellClick ev s = s"
proof -
  from assms have "board_at (board s) (parsed_index ev) = Undefined"
    by (cases "parsed_index ev") auto
  then show ?thesis by (simp add: handleCellClick_def)
qed

text \<open>
  The indices \<open>NaN\<close>, 9 and -1 on the initial state.
\<close>

theorem out_of_range_noop_witness:
  "length (board initial_state) = 9
   \<and> handleCellClick \<lparr>target_is_cell = True, parsed_index = NaN\<rparr> initial_state = initial_state
   \<and> handleCellClick (cell_click 9) initial_state = initial_state
   \<and> handleCellClick (cell_click (- 1)) initial_state = initial_state"
proof -
  have l: "length (board initial_state) = 9" by (simp add: initial_state_def)
  have a: "\<forall>i. parsed_index \<lparr>target_is_cell = True, parsed_index = NaN\<rparr> = Num i \<longrightarrow> i < 0 \<or> 8 < i"
    by simp
  have b: "\<forall>i. parsed_index (cell_click 9) = Num i \<longrightarrow> i < 0 \<or> 8 < i"
    by (simp add: cell_click_def)
  have c: "\<forall>i. parsed_index (cell_click (- 1)) = Num i \<longrightarrow> i < 0 \<or> 8 < i"
    by (simp add: cell_click_def)
  from l out_of_range_noop [OF l a] out_of_range_noop [OF l b] out_of_range_noop [OF l c]
  show ?thesis by blast
qed

end
